theory Spec2Isabelle
  imports Main
begin

section \<open>Symbols, productions and grammars\<close>

text \<open>
  A symbol is either a token string (a terminal) or an \<open>nltk.grammar.Nonterminal\<close>;
  the two are compared by value and a terminal never equals a nonterminal.
\<close>

datatype symbol = Terminal string | Nonterminal string

text \<open>
  Modelled from the spec: the grammar object (class \<open>CFG\<close> of the modules \<open>cfg_fix\<close> and
  \<open>nltk\<close>, which are not among the sources) exposes a list of productions, each with one
  left-hand symbol and a right-hand sequence of symbols, and a designated start symbol.
\<close>

record production =
  lhs :: symbol
  rhs :: "symbol list"

record CFG =
  start_symbol :: symbol
  productions :: "production list"

text \<open>
  The exceptions the recogniser can raise: the \<open>assert\<close> of \<open>buildIndices\<close>, an
  out-of-range list index, a method call on the \<open>None\<close> filler of the matrix, and the
  interpreter's answer to a recursion that never returns.
\<close>

datatype error = AssertionError | IndexError | AttributeError | RecursionError

text \<open>What \<open>recognise\<close> returns: the boolean \<open>False\<close> or an integer.\<close>

datatype pyval = PyBool bool | PyInt int

section \<open>The rule index\<close>

type_synonym unary_index = "symbol \<rightharpoonup> symbol list"

type_synonym binary_index = "symbol list \<rightharpoonup> symbol list"

text \<open>
  \<open>d[k].append(v)\<close> on a \<open>defaultdict(list)\<close>: a missing key starts from the empty
  list.
\<close>

definition dd_append :: "('k \<rightharpoonup> 'v list) \<Rightarrow> 'k \<Rightarrow> 'v \<Rightarrow> ('k \<rightharpoonup> 'v list)" where
  "dd_append d k v = d(k \<mapsto> (case d k of None \<Rightarrow> [] | Some vs \<Rightarrow> vs) @ [v])"

text \<open>
  The loop of \<open>CKY.buildIndices\<close> over the productions, threading the two dictionaries.
  The key of the binary dictionary is the right-hand side itself (a tuple of two symbols).
\<close>

fun buildIndices_loop ::
  "production list \<Rightarrow> unary_index \<times> binary_index \<Rightarrow> error + unary_index \<times> binary_index"
where
  "buildIndices_loop [] ub = Inr ub"
| "buildIndices_loop (p # ps) (U, B) =
     (if \<not> (length (rhs p) > 0 \<and> length (rhs p) \<le> 2) then Inl AssertionError
      else if length (rhs p) = 1
        then buildIndices_loop ps (dd_append U (rhs p ! 0) (lhs p), B)
        else buildIndices_loop ps (U, dd_append B (rhs p) (lhs p)))"

definition buildIndices :: "production list \<Rightarrow> error + unary_index \<times> binary_index" where
  "buildIndices ps = buildIndices_loop ps (Map.empty, Map.empty)"

text \<open>
  The recogniser object after \<open>CKY.__init__\<close>: the grammar and the two dictionaries.
  (\<open>verbose\<close> only drives tracing; \<open>words\<close>, \<open>n\<close> and \<open>matrix\<close> are set by each call of
  \<open>recognise\<close> and are passed explicitly below.)
\<close>

record CKY =
  grammar :: CFG
  unary :: unary_index
  binary :: binary_index

definition CKY_init :: "CFG \<Rightarrow> error + CKY" where
  "CKY_init g =
     (case buildIndices (productions g) of
        Inl e \<Rightarrow> Inl e
      | Inr (U, B) \<Rightarrow> Inr \<lparr>grammar = g, unary = U, binary = B\<rparr>)"

section \<open>Cells\<close>

text \<open>
  A cell holds its position and the list of its labels. (The back reference to the
  recogniser is replaced by passing the unary dictionary to \<open>unaryUpdate\<close>.)
\<close>

record Cell =
  row :: nat
  column :: nat
  labels :: "symbol list"

definition Cell_init :: "nat \<Rightarrow> nat \<Rightarrow> Cell" where
  "Cell_init r c = \<lparr>row = r, column = c, labels = []\<rparr>"

definition addLabel :: "symbol \<Rightarrow> Cell \<Rightarrow> Cell" where
  "addLabel label cell =
     (if label \<notin> set (labels cell) then cell\<lparr>labels := labels cell @ [label]\<rparr> else cell)"

section \<open>Unary closure\<close>

text \<open>
  A \<open>for\<close> loop over a list whose body may not return: the state is threaded through the
  iterations, and the loop returns only if every iteration does.
\<close>

fun for_option :: "'a list \<Rightarrow> ('a \<Rightarrow> 's \<Rightarrow> 's option) \<Rightarrow> 's \<Rightarrow> 's option" where
  "for_option [] body s = Some s"
| "for_option (x # xs) body s = Option.bind (body x s) (for_option xs body)"

lemma for_option_mono [partial_function_mono]:
  assumes "\<And>x s. mono_option (\<lambda>f. body f x s)"
  shows "mono_option (\<lambda>f. for_option xs (body f) s)"
proof (induction xs arbitrary: s)
  case Nil
  show ?case by (simp add: option.const_mono)
next
  case (Cons x xs)
  show ?case unfolding for_option.simps
    by (rule bind_mono [OF assms Cons.IH])
qed

text \<open>
  \<open>Cell.unaryUpdate\<close>: for every parent of the symbol in the unary dictionary, add the
  parent to the cell and recurse on the parent, whether or not the parent was already in
  the cell. The recursion has no guard, so the function is partial: \<open>None\<close> stands for a
  call that never returns. (The parameters \<open>depth\<close> and \<open>recursive\<close> only drive
  tracing.)
\<close>

partial_function (option) unaryUpdate :: "unary_index \<Rightarrow> symbol \<Rightarrow> Cell \<Rightarrow> Cell option" where
  "unaryUpdate U symbol cell =
     (case U symbol of
        None \<Rightarrow> Some cell
      | Some parents \<Rightarrow>
          for_option parents (\<lambda>parent cell. unaryUpdate U parent (addLabel parent cell)) cell)"

declare unaryUpdate.simps [code]

text \<open>
  The direct-parent relation of the unary dictionary, and the symbols reachable from a
  symbol through one or more unary rules.
\<close>

definition unary_rel :: "unary_index \<Rightarrow> (symbol \<times> symbol) set" where
  "unary_rel U = {(parent, child). \<exists>parents. U child = Some parents \<and> parent \<in> set parents}"

definition unary_closure :: "unary_index \<Rightarrow> symbol \<Rightarrow> symbol set" where
  "unary_closure U s = {p. (p, s) \<in> (unary_rel U)\<^sup>+}"

section \<open>The matrix\<close>

text \<open>
  The matrix is a list of rows; a row holds a cell at every column greater than its row
  index and the filler \<open>None\<close> elsewhere.
\<close>

type_synonym matrix = "Cell option list list"

definition bindE :: "error + 'a \<Rightarrow> ('a \<Rightarrow> error + 'b) \<Rightarrow> error + 'b" where
  "bindE r f = (case r of Inl e \<Rightarrow> Inl e | Inr x \<Rightarrow> f x)"

text \<open>A \<open>for\<close> loop over a list whose body may raise: the first error ends the loop.\<close>

fun for_error :: "'a list \<Rightarrow> ('a \<Rightarrow> 's \<Rightarrow> error + 's) \<Rightarrow> 's \<Rightarrow> error + 's" where
  "for_error [] body s = Inr s"
| "for_error (x # xs) body s = bindE (body x s) (for_error xs body)"

text \<open>\<open>xs[i]\<close> for an index that is not negative.\<close>

definition getitem :: "'a list \<Rightarrow> nat \<Rightarrow> error + 'a" where
  "getitem xs i = (if i < length xs then Inr (xs ! i) else Inl IndexError)"

text \<open>\<open>self.matrix[r][c]\<close>.\<close>

definition getCell :: "matrix \<Rightarrow> nat \<Rightarrow> nat \<Rightarrow> error + Cell option" where
  "getCell m r c = bindE (getitem m r) (\<lambda>row. getitem row c)"

text \<open>A method call on what was read from the matrix fails on the filler.\<close>

definition deref :: "Cell option \<Rightarrow> error + Cell" where
  "deref co = (case co of None \<Rightarrow> Inl AttributeError | Some cell \<Rightarrow> Inr cell)"

definition setCell :: "matrix \<Rightarrow> nat \<Rightarrow> nat \<Rightarrow> Cell \<Rightarrow> matrix" where
  "setCell m r c cell = m[r := (m ! r)[c := Some cell]]"

text \<open>
  \<open>cell.addLabel(s); cell.unaryUpdate(s)\<close> for the object \<open>co\<close> that was read from
  position \<open>(r, c)\<close> of the matrix. Python mutates the cell object in place; here the
  changed cell is written back to the position it was read from. A closure that never
  returns surfaces as \<open>RecursionError\<close>; the interpreter's bound on the depth of a
  recursion that does return is not modelled.
\<close>

definition label_and_close ::
  "unary_index \<Rightarrow> symbol \<Rightarrow> matrix \<Rightarrow> nat \<Rightarrow> nat \<Rightarrow> Cell option \<Rightarrow> error + matrix"
where
  "label_and_close U s m r c co =
     bindE (deref co) (\<lambda>cell.
       case unaryUpdate U s (addLabel s cell) of
         None \<Rightarrow> Inl RecursionError
       | Some cell' \<Rightarrow> Inr (setCell m r c cell'))"

text \<open>The matrix that \<open>recognise\<close> allocates for \<open>n = len(tokens) + 1\<close>.\<close>

definition init_matrix :: "nat \<Rightarrow> matrix" where
  "init_matrix n =
     map (\<lambda>r. map (\<lambda>c. if c > r then Some (Cell_init r c) else None) [0..<n]) [0..<n - 1]"

section \<open>The recogniser\<close>

text \<open>
  The methods of \<open>CKY\<close> take \<open>self.words\<close>, \<open>self.n\<close> and \<open>self.matrix\<close> as arguments
  and return the matrix. The tracing calls (\<open>self.log\<close>, from the module \<open>cky_print\<close>,
  which is not among the sources) only write diagnostic lines and are left out.
\<close>

text \<open>\<open>CKY.unaryFill\<close>.\<close>

definition unaryFill :: "CKY \<Rightarrow> string list \<Rightarrow> nat \<Rightarrow> matrix \<Rightarrow> error + matrix" where
  "unaryFill cky words n m =
     for_error [0..<n - 1] (\<lambda>r m.
       bindE (getCell m r (r + 1)) (\<lambda>cell.
       bindE (getitem words r) (\<lambda>word.
       label_and_close (unary cky) (Terminal word) m r (r + 1) cell))) m"

text \<open>
  \<open>CKY.maybeBuild\<close>. The cell at \<open>(start, end)\<close> is read first, as in the source, and
  is the one object that all the additions change. The label list of the left cell is
  taken when the outer loop begins and that of the right cell when each inner loop begins.
  \<open>binaryScan\<close> calls \<open>maybeBuild\<close> with \<open>start < mid < end\<close> only, where the two
  cells that are read differ from the cell that is written, so that the lists do not
  change while they are iterated.
\<close>

definition maybeBuild :: "CKY \<Rightarrow> nat \<Rightarrow> nat \<Rightarrow> nat \<Rightarrow> matrix \<Rightarrow> error + matrix" where
  "maybeBuild cky start mid end' m =
     bindE (getCell m start end') (\<lambda>_.
     bindE (bindE (getCell m start mid) deref) (\<lambda>left.
     for_error (labels left) (\<lambda>s1 m.
       bindE (bindE (getCell m mid end') deref) (\<lambda>right.
       for_error (labels right) (\<lambda>s2 m.
         case binary cky [s1, s2] of
           None \<Rightarrow> Inr m
         | Some parents \<Rightarrow>
             for_error parents (\<lambda>s m.
               bindE (getCell m start end') (\<lambda>cell.
               label_and_close (unary cky) s m start end' cell)) m) m)) m))"

text \<open>\<open>CKY.binaryScan\<close>.\<close>

definition binaryScan :: "CKY \<Rightarrow> nat \<Rightarrow> matrix \<Rightarrow> error + matrix" where
  "binaryScan cky n m =
     for_error [2..<n] (\<lambda>span.
       for_error [0..<n - span] (\<lambda>start.
         for_error [start + 1..<start + span] (\<lambda>mid.
           maybeBuild cky start mid (start + span)))) m"

text \<open>
  \<open>CKY.recognise\<close> in two parts: \<open>chart\<close> is the matrix that the allocation, the
  diagonal fill and the binary scan leave in \<open>self.matrix\<close>; \<open>recognise\<close> then reads
  the cell at row 0 and column \<open>n - 1\<close>.
\<close>

definition chart :: "CKY \<Rightarrow> string list \<Rightarrow> error + matrix" where
  "chart cky tokens =
     (let n = length tokens + 1 in
      bindE (unaryFill cky tokens n (init_matrix n)) (\<lambda>m. binaryScan cky n m))"

definition recognise :: "CKY \<Rightarrow> string list \<Rightarrow> error + pyval" where
  "recognise cky tokens =
     (let n = length tokens + 1 in
      bindE (chart cky tokens) (\<lambda>m.
      bindE (bindE (getCell m 0 (n - 1)) deref) (\<lambda>topcell.
        if start_symbol (grammar cky) \<notin> set (labels topcell) then Inr (PyBool False)
        else Inr (PyInt (int (length (labels topcell)))))))"

section \<open>The binary scan in the words of the specification\<close>




section \<open>Notions used in the proofs\<close>

text \<open>
  What \<open>buildIndices\<close> leaves in the dictionaries: each key gets the left-hand sides of the
  productions with that right-hand side, in list order, after what the key held before.
\<close>

definition unary_parents :: "production list \<Rightarrow> symbol \<Rightarrow> symbol list" where
  "unary_parents ps c = map lhs (filter (\<lambda>p. rhs p = [c]) ps)"

definition binary_parents :: "production list \<Rightarrow> symbol list \<Rightarrow> symbol list" where
  "binary_parents ps k = map lhs (filter (\<lambda>p. length k = 2 \<and> rhs p = k) ps)"

definition extend_index :: "('k \<rightharpoonup> 'v list) \<Rightarrow> ('k \<Rightarrow> 'v list) \<Rightarrow> ('k \<rightharpoonup> 'v list)" where
  "extend_index d new =
     (\<lambda>k. if new k = [] then d k else Some ((case d k of None \<Rightarrow> [] | Some vs \<Rightarrow> vs) @ new k))"

text \<open>What a returning call of \<open>unaryUpdate\<close> leaves in the cell.\<close>

definition closes :: "symbol set \<Rightarrow> Cell \<Rightarrow> Cell \<Rightarrow> bool" where
  "closes new cell cell' \<longleftrightarrow>
     row cell' = row cell \<and> column cell' = column cell
     \<and> set (labels cell') = set (labels cell) \<union> new
     \<and> (\<exists>added. labels cell' = labels cell @ added)
     \<and> (distinct (labels cell) \<longrightarrow> distinct (labels cell'))
     \<and> (new \<subseteq> set (labels cell) \<longrightarrow> cell' = cell)"

text \<open>The shape of the matrix for \<open>n\<close>: \<open>n - 1\<close> rows of \<open>n\<close> columns, with a cell wherever the
  column is greater than the row.\<close>

definition shaped :: "nat \<Rightarrow> matrix \<Rightarrow> bool" where
  "shaped n m \<longleftrightarrow>
     length m = n - 1 \<and> (\<forall>r < n - 1. length (m ! r) = n \<and> (\<forall>c < n. r < c \<longrightarrow> m ! r ! c \<noteq> None))"

text \<open>A property that every cell of the matrix has.\<close>

definition all_cells :: "(Cell \<Rightarrow> bool) \<Rightarrow> matrix \<Rightarrow> bool" where
  "all_cells P m \<longleftrightarrow> (\<forall>row \<in> set m. \<forall>cell. Some cell \<in> set row \<longrightarrow> P cell)"

text \<open>A property of cells that adding a label and closing under the unary rules keeps.\<close>

definition stable :: "unary_index \<Rightarrow> (Cell \<Rightarrow> bool) \<Rightarrow> bool" where
  "stable U P \<longleftrightarrow>
     (\<forall>s cell cell'. P cell \<longrightarrow> unaryUpdate U s (addLabel s cell) = Some cell' \<longrightarrow> P cell')"

text \<open>An outcome that is either a closure that never returned, or a state with the property.\<close>

definition safe :: "('s \<Rightarrow> bool) \<Rightarrow> error + 's \<Rightarrow> bool" where
  "safe I r \<longleftrightarrow> r = Inl RecursionError \<or> (\<exists>s. r = Inr s \<and> I s)"

text \<open>The invariant of the chart construction for a property of cells.\<close>

definition chart_inv :: "nat \<Rightarrow> (Cell \<Rightarrow> bool) \<Rightarrow> matrix \<Rightarrow> bool" where
  "chart_inv n P m \<longleftrightarrow> shaped n m \<and> all_cells P m"

text \<open>A cell on which closing again from any of its labels returns and changes nothing.\<close>

definition closed_cell :: "unary_index \<Rightarrow> Cell \<Rightarrow> bool" where
  "closed_cell U cell \<longleftrightarrow> (\<forall>l \<in> set (labels cell). unaryUpdate U l cell = Some cell)"

text \<open>The value that \<open>recognise\<close> returns for the cell at row 0 and column \<open>n - 1\<close>.\<close>

definition verdict :: "CKY \<Rightarrow> Cell \<Rightarrow> pyval" where
  "verdict cky topcell =
     (if start_symbol (grammar cky) \<in> set (labels topcell)
      then PyInt (int (length (labels topcell))) else PyBool False)"


text \<open>An outcome other than a closure that never returned.\<close>

definition quiet :: "error + 'a \<Rightarrow> bool" where
  "quiet r \<longleftrightarrow> r \<noteq> Inl RecursionError"

section \<open>Example grammars\<close>

text \<open>The single-token example: N \<rightarrow> "dog", S \<rightarrow> N.\<close>

definition dog_grammar :: CFG where
  "dog_grammar = \<lparr>start_symbol = Nonterminal ''S'', productions =
     [\<lparr>lhs = Nonterminal ''N'', rhs = [Terminal ''dog'']\<rparr>,
      \<lparr>lhs = Nonterminal ''S'', rhs = [Nonterminal ''N'']\<rparr>]\<rparr>"

text \<open>S \<rightarrow> NP VP, NP \<rightarrow> "the" N, N \<rightarrow> "dog", VP \<rightarrow> "barks".\<close>

definition barks_grammar :: CFG where
  "barks_grammar = \<lparr>start_symbol = Nonterminal ''S'', productions =
     [\<lparr>lhs = Nonterminal ''S'', rhs = [Nonterminal ''NP'', Nonterminal ''VP'']\<rparr>,
      \<lparr>lhs = Nonterminal ''NP'', rhs = [Terminal ''the'', Nonterminal ''N'']\<rparr>,
      \<lparr>lhs = Nonterminal ''N'', rhs = [Terminal ''dog'']\<rparr>,
      \<lparr>lhs = Nonterminal ''VP'', rhs = [Terminal ''barks'']\<rparr>]\<rparr>"

text \<open>A grammar that lists the production N \<rightarrow> "dog" twice.\<close>

definition twice_productions :: "production list" where
  "twice_productions =
     [\<lparr>lhs = Nonterminal ''N'', rhs = [Terminal ''dog'']\<rparr>,
      \<lparr>lhs = Nonterminal ''S'', rhs = [Nonterminal ''N'', Nonterminal ''N'']\<rparr>,
      \<lparr>lhs = Nonterminal ''N'', rhs = [Terminal ''dog'']\<rparr>]"

text \<open>A grammar with an empty right-hand side, and one with three right-hand symbols.\<close>

definition empty_rhs_grammar :: CFG where
  "empty_rhs_grammar = \<lparr>start_symbol = Nonterminal ''S'', productions =
     [\<lparr>lhs = Nonterminal ''S'', rhs = [Nonterminal ''N'']\<rparr>,
      \<lparr>lhs = Nonterminal ''N'', rhs = []\<rparr>]\<rparr>"

definition ternary_grammar :: CFG where
  "ternary_grammar = \<lparr>start_symbol = Nonterminal ''S'', productions =
     [\<lparr>lhs = Nonterminal ''S'',
       rhs = [Nonterminal ''A'', Nonterminal ''B'', Nonterminal ''C'']\<rparr>]\<rparr>"

text \<open>A grammar with the unary cycle X \<rightarrow> Y, Y \<rightarrow> X, and X \<rightarrow> "a".\<close>

definition cycle_grammar :: CFG where
  "cycle_grammar = \<lparr>start_symbol = Nonterminal ''X'', productions =
     [\<lparr>lhs = Nonterminal ''X'', rhs = [Nonterminal ''Y'']\<rparr>,
      \<lparr>lhs = Nonterminal ''Y'', rhs = [Nonterminal ''X'']\<rparr>,
      \<lparr>lhs = Nonterminal ''X'', rhs = [Terminal ''a'']\<rparr>]\<rparr>"

text \<open>The recognisers that \<open>CKY_init\<close> builds for three of these grammars.\<close>

definition dog_cky :: CKY where
  "dog_cky = \<lparr>grammar = dog_grammar,
     unary = [Terminal ''dog'' \<mapsto> [Nonterminal ''N''], Nonterminal ''N'' \<mapsto> [Nonterminal ''S'']],
     binary = Map.empty\<rparr>"

definition barks_cky :: CKY where
  "barks_cky = \<lparr>grammar = barks_grammar,
     unary = [Terminal ''dog'' \<mapsto> [Nonterminal ''N''], Terminal ''barks'' \<mapsto> [Nonterminal ''VP'']],
     binary = [[Nonterminal ''NP'', Nonterminal ''VP''] \<mapsto> [Nonterminal ''S''],
               [Terminal ''the'', Nonterminal ''N''] \<mapsto> [Nonterminal ''NP'']]\<rparr>"

definition cycle_cky :: CKY where
  "cycle_cky = \<lparr>grammar = cycle_grammar,
     unary = [Nonterminal ''Y'' \<mapsto> [Nonterminal ''X''], Nonterminal ''X'' \<mapsto> [Nonterminal ''Y''],
              Terminal ''a'' \<mapsto> [Nonterminal ''X'']],
     binary = Map.empty\<rparr>"


section \<open>Properties of the rule index\<close>

lemma buildIndices_loop_fails:
  "(\<exists>e. buildIndices_loop ps ub = Inl e) \<longleftrightarrow>
   (\<exists>p \<in> set ps. length (rhs p) = 0 \<or> length (rhs p) > 2)"
proof (induction ps arbitrary: ub)
  case Nil
  show ?case by simp
next
  case (Cons p ps)
  obtain U B where ub: "ub = (U, B)" by (cases ub)
  show ?case unfolding ub using Cons.IH by (auto simp: not_le)
qed

lemma buildIndices_loop_error:
  "buildIndices_loop ps ub = Inl e \<Longrightarrow> e = AssertionError"
proof (induction ps arbitrary: ub)
  case Nil
  then show ?case by simp
next
  case (Cons p ps)
  obtain U B where ub: "ub = (U, B)" by (cases ub)
  from Cons.prems Cons.IH show ?case unfolding ub by (auto split: if_splits)
qed

lemma length_one_conv: "length xs = Suc 0 \<Longrightarrow> xs = [c] \<longleftrightarrow> xs ! 0 = c"
  by (cases xs) auto

lemma buildIndices_loop_result:
  assumes "\<forall>p \<in> set ps. length (rhs p) = 1 \<or> length (rhs p) = 2"
  shows "buildIndices_loop ps (U, B) =
    Inr (extend_index U (unary_parents ps), extend_index B (binary_parents ps))"
  using assms
proof (induction ps arbitrary: U B)
  case Nil
  show ?case by (simp add: extend_index_def unary_parents_def binary_parents_def)
next
  case (Cons p ps)
  from Cons.prems have rest: "\<forall>p \<in> set ps. length (rhs p) = 1 \<or> length (rhs p) = 2"
    by simp
  from Cons.prems consider (one) "length (rhs p) = 1" | (two) "length (rhs p) = 2"
    by auto
  then show ?case
  proof cases
    case one
    have U: "extend_index (dd_append U (rhs p ! 0) (lhs p)) (unary_parents ps)
        = extend_index U (unary_parents (p # ps))"
      using one
      by (auto simp: extend_index_def dd_append_def unary_parents_def fun_eq_iff
          length_one_conv split: option.splits)
    have B: "extend_index B (binary_parents ps) = extend_index B (binary_parents (p # ps))"
      using one by (auto simp: extend_index_def binary_parents_def fun_eq_iff)
    show ?thesis using one Cons.IH [OF rest] U B by simp
  next
    case two
    have U: "extend_index U (unary_parents ps) = extend_index U (unary_parents (p # ps))"
      using two by (auto simp: extend_index_def unary_parents_def fun_eq_iff)
    have B: "extend_index (dd_append B (rhs p) (lhs p)) (binary_parents ps)
        = extend_index B (binary_parents (p # ps))"
      using two
      by (auto simp: extend_index_def dd_append_def binary_parents_def fun_eq_iff
          split: option.splits)
    show ?thesis using two Cons.IH [OF rest] U B by simp
  qed
qed

lemma buildIndices_result:
  assumes "\<forall>p \<in> set ps. length (rhs p) = 1 \<or> length (rhs p) = 2"
  shows "buildIndices ps =
    Inr (\<lambda>c. if unary_parents ps c = [] then None else Some (unary_parents ps c),
         \<lambda>k. if binary_parents ps k = [] then None else Some (binary_parents ps k))"
  unfolding buildIndices_def buildIndices_loop_result [OF assms]
  by (simp add: extend_index_def cong: if_cong)

section \<open>Properties of label addition\<close>

lemma addLabel_present: "label \<in> set (labels cell) \<Longrightarrow> addLabel label cell = cell"
  by (simp add: addLabel_def)

lemma set_labels_addLabel: "set (labels (addLabel label cell)) = insert label (set (labels cell))"
  by (auto simp: addLabel_def)

lemma distinct_addLabel: "distinct (labels cell) \<Longrightarrow> distinct (labels (addLabel label cell))"
  by (simp add: addLabel_def)

lemma addLabel_position [simp]:
  "row (addLabel label cell) = row cell" "column (addLabel label cell) = column cell"
  by (simp_all add: addLabel_def)

lemma labels_fold_addLabel:
  "labels (fold addLabel xs (Cell_init r c)) = rev (remdups (rev xs))"
proof (induction xs rule: rev_induct)
  case Nil
  show ?case by (simp add: Cell_init_def)
next
  case (snoc x xs)
  then show ?case by (simp add: addLabel_def)
qed

section \<open>Properties of unary closure\<close>

lemma for_option_calls:
  "for_option xs body s = Some s' \<Longrightarrow> \<forall>x \<in> set xs. \<exists>t t'. body x t = Some t'"
proof (induction xs arbitrary: s)
  case Nil
  show ?case by simp
next
  case (Cons x xs)
  from Cons.prems obtain t where t: "body x s = Some t" and rest: "for_option xs body t = Some s'"
    by (auto simp: bind_eq_Some_conv)
  from Cons.IH [OF rest] t show ?case by auto
qed

lemma unaryUpdate_returns_acc:
  assumes ret: "unaryUpdate U s cell = Some cell'"
  shows "s \<in> Wellfounded.acc (unary_rel U)"
proof (rule unaryUpdate.raw_induct
    [where P = "\<lambda>U s cell cell'. s \<in> Wellfounded.acc (unary_rel U)", OF _ ret])
  fix f U s and cell cell' :: Cell
  assume IH: "\<And>U s cell cell'. f U s cell = Some cell' \<Longrightarrow> s \<in> Wellfounded.acc (unary_rel U)"
    and eq: "(case U s of None \<Rightarrow> Some cell
       | Some parents \<Rightarrow> for_option parents (\<lambda>parent cell. f U parent (addLabel parent cell)) cell)
       = Some cell'"
  show "s \<in> Wellfounded.acc (unary_rel U)"
  proof (rule accI)
    fix p
    assume "(p, s) \<in> unary_rel U"
    then obtain parents where U: "U s = Some parents" and p: "p \<in> set parents"
      by (auto simp: unary_rel_def)
    from eq U have "for_option parents (\<lambda>parent cell. f U parent (addLabel parent cell)) cell
        = Some cell'"
      by simp
    from for_option_calls [OF this] p obtain t t' where "f U p (addLabel p t) = Some t'"
      by blast
    then show "p \<in> Wellfounded.acc (unary_rel U)" by (rule IH)
  qed
qed

lemma unary_closure_no_rule: "U s = None \<Longrightarrow> unary_closure U s = {}"
  by (auto simp: unary_closure_def unary_rel_def dest: tranclD2)

lemma unary_closure_rule:
  "U s = Some parents \<Longrightarrow> unary_closure U s = (\<Union>p \<in> set parents. insert p (unary_closure U p))"
proof (intro set_eqI iffI)
  fix q
  assume U: "U s = Some parents" and "q \<in> unary_closure U s"
  then have "(q, s) \<in> (unary_rel U)\<^sup>+" by (simp add: unary_closure_def)
  then obtain p where qp: "(q, p) \<in> (unary_rel U)\<^sup>*" and ps: "(p, s) \<in> unary_rel U"
    by (auto dest: tranclD2)
  from ps U have "p \<in> set parents" by (simp add: unary_rel_def)
  moreover from qp have "q = p \<or> (q, p) \<in> (unary_rel U)\<^sup>+" by (auto simp: rtrancl_eq_or_trancl)
  ultimately show "q \<in> (\<Union>p \<in> set parents. insert p (unary_closure U p))"
    by (auto simp: unary_closure_def)
next
  fix q
  assume U: "U s = Some parents" and "q \<in> (\<Union>p \<in> set parents. insert p (unary_closure U p))"
  then obtain p where p: "p \<in> set parents" and q: "q = p \<or> (q, p) \<in> (unary_rel U)\<^sup>+"
    by (auto simp: unary_closure_def)
  from p U have "(p, s) \<in> unary_rel U" by (simp add: unary_rel_def)
  with q show "q \<in> unary_closure U s" by (auto simp: unary_closure_def intro: trancl_into_trancl)
qed

lemma unary_closure_trans:
  "p \<in> unary_closure U s \<Longrightarrow> unary_closure U p \<subseteq> unary_closure U s"
  by (auto simp: unary_closure_def intro: trancl_trans)

lemma closes_empty: "closes {} cell cell"
  by (simp add: closes_def)

lemma closes_addLabel: "closes {label} cell (addLabel label cell)"
  by (auto simp: closes_def addLabel_def)

lemma closes_trans:
  assumes "closes A cell cell'" and "closes B cell' cell''"
  shows "closes (A \<union> B) cell cell''"
  using assms unfolding closes_def by auto

lemma acc_unaryUpdate:
  assumes "s \<in> Wellfounded.acc (unary_rel U)"
  shows "\<exists>cell'. unaryUpdate U s cell = Some cell' \<and> closes (unary_closure U s) cell cell'"
  using assms
proof (induction s arbitrary: cell rule: acc_induct_rule)
  case (1 s)
  show ?case
  proof (cases "U s")
    case None
    then show ?thesis
      by (subst unaryUpdate.simps) (simp add: unary_closure_no_rule closes_empty)
  next
    case (Some parents)
    have loop: "set qs \<subseteq> set parents \<Longrightarrow>
      \<exists>cell'. for_option qs (\<lambda>parent cell. unaryUpdate U parent (addLabel parent cell)) cell
          = Some cell'
        \<and> closes (\<Union>p \<in> set qs. insert p (unary_closure U p)) cell cell'" for qs cell
    proof (induction qs arbitrary: cell)
      case Nil
      show ?case by (simp add: closes_empty)
    next
      case (Cons q qs)
      from Cons.prems Some have "(q, s) \<in> unary_rel U" by (simp add: unary_rel_def)
      from "1.IH" [OF this, of "addLabel q cell"]
      obtain c1 where c1: "unaryUpdate U q (addLabel q cell) = Some c1"
        and cl1: "closes (unary_closure U q) (addLabel q cell) c1" by blast
      from Cons.prems have "set qs \<subseteq> set parents" by simp
      from Cons.IH [OF this, of c1]
      obtain c2 where c2: "for_option qs
          (\<lambda>parent cell. unaryUpdate U parent (addLabel parent cell)) c1 = Some c2"
        and cl2: "closes (\<Union>p \<in> set qs. insert p (unary_closure U p)) c1 c2" by blast
      have "closes ({q} \<union> unary_closure U q \<union> (\<Union>p \<in> set qs. insert p (unary_closure U p)))
          cell c2"
        by (intro closes_trans [OF closes_trans [OF closes_addLabel cl1] cl2])
      moreover have "{q} \<union> unary_closure U q \<union> (\<Union>p \<in> set qs. insert p (unary_closure U p))
          = (\<Union>p \<in> set (q # qs). insert p (unary_closure U p))"
        by auto
      ultimately show ?case using c1 c2 by simp
    qed
    from loop [of parents cell] Some show ?thesis
      by (subst unaryUpdate.simps) (simp add: unary_closure_rule)
  qed
qed

lemma unaryUpdate_returns_iff:
  "(\<exists>cell'. unaryUpdate U s cell = Some cell') \<longleftrightarrow> s \<in> Wellfounded.acc (unary_rel U)"
  using unaryUpdate_returns_acc acc_unaryUpdate by blast

lemma unaryUpdate_closes:
  "unaryUpdate U s cell = Some cell' \<Longrightarrow> closes (unary_closure U s) cell cell'"
  using acc_unaryUpdate [OF unaryUpdate_returns_acc, of U s cell cell' cell] by auto

lemma acc_no_cycle:
  assumes "a \<in> Wellfounded.acc r"
  shows "(a, a) \<notin> r\<^sup>+"
  using assms
proof (induction a rule: acc_induct_rule)
  case (1 x)
  show ?case
  proof
    assume "(x, x) \<in> r\<^sup>+"
    then obtain y where xy: "(x, y) \<in> r\<^sup>*" and yx: "(y, x) \<in> r" by (auto dest: tranclD2)
    from yx xy have "(y, y) \<in> r\<^sup>+" by (rule rtrancl_into_trancl2)
    with "1.IH" [OF yx] show False by simp
  qed
qed

lemma unaryUpdate_diverges_on_cycle:
  assumes "p = s \<or> p \<in> unary_closure U s" and "p \<in> unary_closure U p"
  shows "unaryUpdate U s cell = None"
proof (rule ccontr)
  assume "unaryUpdate U s cell \<noteq> None"
  then obtain cell' where "unaryUpdate U s cell = Some cell'" by auto
  then have s: "s \<in> Wellfounded.acc (unary_rel U)" by (rule unaryUpdate_returns_acc)
  from assms(1) have "(p, s) \<in> (unary_rel U)\<^sup>*" by (auto simp: unary_closure_def)
  with s have "p \<in> Wellfounded.acc (unary_rel U)" by (rule acc_downwards)
  from acc_no_cycle [OF this] assms(2) show False by (simp add: unary_closure_def)
qed

lemma stable_True: "stable U (\<lambda>_. True)"
  by (simp add: stable_def)

lemma stable_distinct: "stable U (\<lambda>cell. distinct (labels cell))"
  unfolding stable_def
proof (intro allI impI)
  fix s cell cell'
  assume "distinct (labels cell)" and "unaryUpdate U s (addLabel s cell) = Some cell'"
  with unaryUpdate_closes [of U s "addLabel s cell" cell'] distinct_addLabel [of cell s]
  show "distinct (labels cell')" by (simp add: closes_def)
qed

lemma closed_cell_init: "closed_cell U (Cell_init r c)"
  by (simp add: closed_cell_def Cell_init_def)

lemma closed_cell_closure:
  assumes "closed_cell U cell" "l \<in> set (labels cell)"
  shows "unary_closure U l \<subseteq> set (labels cell)"
proof -
  from assms have "unaryUpdate U l cell = Some cell" by (simp add: closed_cell_def)
  from unaryUpdate_closes [OF this] show ?thesis by (auto simp: closes_def)
qed

lemma stable_closed_cell: "stable U (closed_cell U)"
  unfolding stable_def
proof (intro allI impI)
  fix s cell cell'
  assume closed: "closed_cell U cell" and ret: "unaryUpdate U s (addLabel s cell) = Some cell'"
  from unaryUpdate_closes [OF ret]
  have labs: "set (labels cell') = insert s (set (labels cell)) \<union> unary_closure U s"
    by (simp add: closes_def set_labels_addLabel)
  from ret have s_acc: "s \<in> Wellfounded.acc (unary_rel U)" by (rule unaryUpdate_returns_acc)
  show "closed_cell U cell'"
    unfolding closed_cell_def
  proof
    fix l
    assume "l \<in> set (labels cell')"
    with labs consider (old) "l \<in> set (labels cell)" | (seed) "l = s"
      | (new) "l \<in> unary_closure U s" by auto
    then have "l \<in> Wellfounded.acc (unary_rel U) \<and> unary_closure U l \<subseteq> set (labels cell')"
    proof cases
      case old
      with closed have "unaryUpdate U l cell = Some cell" by (simp add: closed_cell_def)
      then have "l \<in> Wellfounded.acc (unary_rel U)" by (rule unaryUpdate_returns_acc)
      moreover from closed_cell_closure [OF closed old] labs
      have "unary_closure U l \<subseteq> set (labels cell')" by auto
      ultimately show ?thesis ..
    next
      case seed
      with s_acc labs show ?thesis by auto
    next
      case new
      then have "(l, s) \<in> (unary_rel U)\<^sup>*" by (simp add: unary_closure_def)
      with s_acc have "l \<in> Wellfounded.acc (unary_rel U)" by (rule acc_downwards)
      moreover from unary_closure_trans [OF new] labs
      have "unary_closure U l \<subseteq> set (labels cell')" by auto
      ultimately show ?thesis ..
    qed
    then have l_acc: "l \<in> Wellfounded.acc (unary_rel U)"
      and sub: "unary_closure U l \<subseteq> set (labels cell')" by simp_all
    from acc_unaryUpdate [OF l_acc, of cell'] obtain c'' where
      "unaryUpdate U l cell' = Some c''" "closes (unary_closure U l) cell' c''" by blast
    with sub show "unaryUpdate U l cell' = Some cell'" by (simp add: closes_def)
  qed
qed

section \<open>Loops, matrix access and the chart invariant\<close>

lemma bindE_simps [simp]: "bindE (Inl e) f = Inl e" "bindE (Inr x) f = f x"
  by (simp_all add: bindE_def)

lemma bindE_Inr_iff: "bindE r f = Inr y \<longleftrightarrow> (\<exists>x. r = Inr x \<and> f x = Inr y)"
  by (cases r) auto

lemma deref_Inr_iff: "deref co = Inr cell \<longleftrightarrow> co = Some cell"
  by (cases co) (simp_all add: deref_def)







lemma safe_Inr [simp]: "safe I (Inr s) \<longleftrightarrow> I s"
  by (simp add: safe_def)

lemma safe_RecursionError [simp]: "safe I (Inl RecursionError)"
  by (simp add: safe_def)

lemma safe_bindE:
  assumes "safe I r" and "\<And>s. I s \<Longrightarrow> safe J (f s)"
  shows "safe J (bindE r f)"
proof -
  from assms(1) consider "r = Inl RecursionError" | s where "r = Inr s" "I s"
    by (auto simp: safe_def)
  then show ?thesis
  proof cases
    case 1
    then show ?thesis by simp
  next
    case 2
    with assms(2) show ?thesis by simp
  qed
qed

lemma safe_for_error:
  assumes "I s" and "\<And>x s. x \<in> set xs \<Longrightarrow> I s \<Longrightarrow> safe I (body x s)"
  shows "safe I (for_error xs body s)"
  using assms
proof (induction xs arbitrary: s)
  case Nil
  then show ?case by simp
next
  case (Cons x xs)
  show ?case unfolding for_error.simps
  proof (rule safe_bindE)
    show "safe I (body x s)" using Cons.prems by simp
  next
    fix t assume "I t"
    then show "safe I (for_error xs body t)" using Cons.prems by (intro Cons.IH) simp_all
  qed
qed


lemma shaped_init: "shaped n (init_matrix n)"
  by (auto simp: shaped_def init_matrix_def)

lemma all_cells_init: "(\<And>r c. P (Cell_init r c)) \<Longrightarrow> all_cells P (init_matrix n)"
  by (auto simp: all_cells_def init_matrix_def split: if_splits)

lemma shaped_chart_inv: "chart_inv n (\<lambda>_. True) m \<longleftrightarrow> shaped n m"
  by (simp add: chart_inv_def all_cells_def)


lemma getCell_shaped:
  assumes "shaped n m" "r < c" "c < n"
  shows "\<exists>cell. getCell m r c = Inr (Some cell)"
proof -
  from assms have r: "r < n - 1" by arith
  with assms have "length m = n - 1" "length (m ! r) = n" "m ! r ! c \<noteq> None"
    by (auto simp: shaped_def)
  with r assms show ?thesis by (auto simp: getCell_def getitem_def)
qed

lemma getCell_Some_mem:
  "getCell m r c = Inr (Some cell) \<Longrightarrow> r < length m \<and> c < length (m ! r) \<and> m ! r ! c = Some cell"
  by (auto simp: getCell_def getitem_def bindE_def split: if_splits sum.splits)

lemma all_cells_getCell:
  assumes "all_cells P m" "getCell m r c = Inr (Some cell)"
  shows "P cell"
proof -
  from getCell_Some_mem [OF assms(2)]
  have "m ! r \<in> set m" "Some cell \<in> set (m ! r)" by (auto simp: in_set_conv_nth)
  with assms(1) show ?thesis unfolding all_cells_def by blast
qed

lemma shaped_setCell:
  assumes "shaped n m"
  shows "shaped n (setCell m r c cell)"
  unfolding shaped_def
proof (intro conjI allI impI)
  show "length (setCell m r c cell) = n - 1"
    using assms by (simp add: shaped_def setCell_def)
next
  fix r' assume r': "r' < n - 1"
  with assms have len: "r' < length m" "length (m ! r') = n" by (simp_all add: shaped_def)
  then show "length (setCell m r c cell ! r') = n"
    by (cases "r' = r") (simp_all add: setCell_def)
  fix c' assume c': "c' < n" "r' < c'"
  with assms r' have "m ! r' ! c' \<noteq> None" by (simp add: shaped_def)
  with len c' show "setCell m r c cell ! r' ! c' \<noteq> None"
    by (cases "r' = r"; cases "c' = c") (simp_all add: setCell_def)
qed

lemma all_cells_setCell:
  assumes "all_cells P m" "P cell"
  shows "all_cells P (setCell m r c cell)"
proof (cases "r < length m")
  case False
  then have "setCell m r c cell = m" by (simp add: setCell_def list_update_beyond)
  with assms(1) show ?thesis by simp
next
  case True
  then have row: "m ! r \<in> set m" by simp
  show ?thesis unfolding all_cells_def
  proof (intro ballI allI impI)
    fix row' cell'
    assume row': "row' \<in> set (setCell m r c cell)" and cell': "Some cell' \<in> set row'"
    from row' have "row' \<in> insert ((m ! r)[c := Some cell]) (set m)"
      unfolding setCell_def
      by (rule subsetD [OF set_update_subset_insert])
    then show "P cell'"
    proof
      assume "row' = (m ! r)[c := Some cell]"
      with cell' have "Some cell' \<in> set ((m ! r)[c := Some cell])" by simp
      then have "Some cell' \<in> insert (Some cell) (set (m ! r))"
        by (rule subsetD [OF set_update_subset_insert])
      then have "cell' = cell \<or> Some cell' \<in> set (m ! r)" by simp
      then show ?thesis
      proof
        assume "cell' = cell"
        with assms(2) show ?thesis by simp
      next
        assume "Some cell' \<in> set (m ! r)"
        with assms(1) row show ?thesis unfolding all_cells_def by blast
      qed
    next
      assume "row' \<in> set m"
      with assms(1) cell' show ?thesis unfolding all_cells_def by blast
    qed
  qed
qed



lemma label_and_close_safe:
  assumes inv: "chart_inv n P m" and st: "stable U P"
    and get: "getCell m r c = Inr co" and pos: "r < c" "c < n"
  shows "safe (chart_inv n P) (label_and_close U s m r c co)"
proof -
  from inv have sh: "shaped n m" and cells: "all_cells P m" by (simp_all add: chart_inv_def)
  from getCell_shaped [OF sh pos] get obtain cell where co: "co = Some cell" by auto
  with get cells have P: "P cell" by (auto intro: all_cells_getCell)
  show ?thesis
  proof (cases "unaryUpdate U s (addLabel s cell)")
    case None
    with co show ?thesis by (simp add: label_and_close_def deref_def)
  next
    case (Some cell')
    with st P have "P cell'" unfolding stable_def by blast
    with sh cells have "chart_inv n P (setCell m r c cell')"
      by (simp add: chart_inv_def shaped_setCell all_cells_setCell)
    with Some co show ?thesis by (simp add: label_and_close_def deref_def)
  qed
qed

lemma update_at_safe:
  assumes inv: "chart_inv n P m" and st: "stable U P" and pos: "r < c" "c < n"
  shows "safe (chart_inv n P)
    (bindE (getCell m r c) (\<lambda>cell. label_and_close U s m r c cell))"
proof -
  from inv have sh: "shaped n m" by (simp add: chart_inv_def)
  from getCell_shaped [OF sh pos] obtain cell where get: "getCell m r c = Inr (Some cell)" by auto
  from label_and_close_safe [OF inv st get pos] get show ?thesis by simp
qed

lemma unaryFill_safe:
  assumes inv: "chart_inv n P m" and st: "stable (unary cky) P" and len: "length words = n - 1"
  shows "safe (chart_inv n P) (unaryFill cky words n m)"
  unfolding unaryFill_def
proof (rule safe_for_error [where I = "chart_inv n P"])
  show "chart_inv n P m" by (rule inv)
next
  fix r m'
  assume r: "r \<in> set [0..<n - 1]" and inv': "chart_inv n P m'"
  from r have pos: "r < r + 1" "r + 1 < n" by auto
  from inv' have sh: "shaped n m'" by (simp add: chart_inv_def)
  from getCell_shaped [OF sh pos] obtain cell where get: "getCell m' r (r + 1) = Inr (Some cell)"
    by auto
  from r len have word: "getitem words r = Inr (words ! r)" by (simp add: getitem_def)
  have "bindE (getCell m' r (r + 1)) (\<lambda>cell. bindE (getitem words r)
        (\<lambda>word. label_and_close (unary cky) (Terminal word) m' r (r + 1) cell))
      = label_and_close (unary cky) (Terminal (words ! r)) m' r (r + 1) (Some cell)"
    by (simp only: get word bindE_simps)
  with label_and_close_safe [OF inv' st get pos]
  show "safe (chart_inv n P)
     (bindE (getCell m' r (r + 1)) (\<lambda>cell. bindE (getitem words r)
        (\<lambda>word. label_and_close (unary cky) (Terminal word) m' r (r + 1) cell)))"
    by (simp only:)
qed

lemma maybeBuild_safe:
  assumes inv: "chart_inv n P m" and st: "stable (unary cky) P"
    and pos: "start < mid" "mid < end'" "end' < n"
  shows "safe (chart_inv n P) (maybeBuild cky start mid end' m)"
proof -
  from pos have se: "start < end'" by simp
  from inv have sh: "shaped n m" by (simp add: chart_inv_def)
  from getCell_shaped [OF sh se pos(3)] obtain target where
    target: "getCell m start end' = Inr (Some target)" by auto
  from pos have sm: "mid < n" by simp
  from getCell_shaped [OF sh pos(1) sm] obtain left where
    left: "getCell m start mid = Inr (Some left)" by auto
  have inner: "safe (chart_inv n P)
      (for_error parents (\<lambda>s m. bindE (getCell m start end')
          (\<lambda>cell. label_and_close (unary cky) s m start end' cell)) m')"
    if "chart_inv n P m'" for parents m'
  proof (rule safe_for_error [where I = "chart_inv n P"])
    show "chart_inv n P m'" by (rule that)
  next
    fix s m''
    assume "chart_inv n P m''"
    then show "safe (chart_inv n P) (bindE (getCell m'' start end')
          (\<lambda>cell. label_and_close (unary cky) s m'' start end' cell))"
      by (rule update_at_safe [OF _ st se pos(3)])
  qed
  have middle: "safe (chart_inv n P)
      (for_error ls (\<lambda>s2 m. case binary cky [s1, s2] of None \<Rightarrow> Inr m
          | Some parents \<Rightarrow> for_error parents (\<lambda>s m. bindE (getCell m start end')
              (\<lambda>cell. label_and_close (unary cky) s m start end' cell)) m) m')"
    if "chart_inv n P m'" for ls s1 m'
  proof (rule safe_for_error [where I = "chart_inv n P"])
    show "chart_inv n P m'" by (rule that)
  next
    fix s2 m''
    assume "chart_inv n P m''"
    then show "safe (chart_inv n P) (case binary cky [s1, s2] of None \<Rightarrow> Inr m''
          | Some parents \<Rightarrow> for_error parents (\<lambda>s m. bindE (getCell m start end')
              (\<lambda>cell. label_and_close (unary cky) s m start end' cell)) m'')"
      by (cases "binary cky [s1, s2]") (simp_all add: inner)
  qed
  have outer: "safe (chart_inv n P)
      (for_error (labels left) (\<lambda>s1 m. bindE (bindE (getCell m mid end') deref)
         (\<lambda>right. for_error (labels right) (\<lambda>s2 m. case binary cky [s1, s2] of None \<Rightarrow> Inr m
          | Some parents \<Rightarrow> for_error parents (\<lambda>s m. bindE (getCell m start end')
              (\<lambda>cell. label_and_close (unary cky) s m start end' cell)) m) m)) m)"
  proof (rule safe_for_error [where I = "chart_inv n P"])
    show "chart_inv n P m" by (rule inv)
  next
    fix s1 m'
    assume inv': "chart_inv n P m'"
    then have sh': "shaped n m'" by (simp add: chart_inv_def)
    from getCell_shaped [OF sh' pos(2,3)] obtain right where
      right: "getCell m' mid end' = Inr (Some right)" by auto
    show "safe (chart_inv n P) (bindE (bindE (getCell m' mid end') deref)
         (\<lambda>right. for_error (labels right) (\<lambda>s2 m. case binary cky [s1, s2] of None \<Rightarrow> Inr m
          | Some parents \<Rightarrow> for_error parents (\<lambda>s m. bindE (getCell m start end')
              (\<lambda>cell. label_and_close (unary cky) s m start end' cell)) m) m'))"
      by (simp add: right deref_def middle [OF inv'])
  qed
  show ?thesis
    unfolding maybeBuild_def using outer by (simp add: target left deref_def)
qed

lemma binaryScan_safe:
  assumes inv: "chart_inv n P m" and st: "stable (unary cky) P"
  shows "safe (chart_inv n P) (binaryScan cky n m)"
  unfolding binaryScan_def
proof (rule safe_for_error [where I = "chart_inv n P"])
  show "chart_inv n P m" by (rule inv)
next
  fix span m1
  assume span: "span \<in> set [2..<n]" and inv1: "chart_inv n P m1"
  show "safe (chart_inv n P) (for_error [0..<n - span] (\<lambda>start.
      for_error [start + 1..<start + span] (\<lambda>mid.
        maybeBuild cky start mid (start + span))) m1)"
  proof (rule safe_for_error [where I = "chart_inv n P"])
    show "chart_inv n P m1" by (rule inv1)
  next
    fix start m2
    assume start: "start \<in> set [0..<n - span]" and inv2: "chart_inv n P m2"
    show "safe (chart_inv n P) (for_error [start + 1..<start + span] (\<lambda>mid.
        maybeBuild cky start mid (start + span)) m2)"
    proof (rule safe_for_error [where I = "chart_inv n P"])
      show "chart_inv n P m2" by (rule inv2)
    next
      fix mid m3
      assume mid: "mid \<in> set [start + 1..<start + span]" and inv3: "chart_inv n P m3"
      from mid start span have "start < mid" "mid < start + span" "start + span < n" by auto
      then show "safe (chart_inv n P) (maybeBuild cky start mid (start + span) m3)"
        by (rule maybeBuild_safe [OF inv3 st])
    qed
  qed
qed

lemma chart_safe:
  assumes init: "\<And>r c. P (Cell_init r c)" and st: "stable (unary cky) P"
  shows "safe (chart_inv (length tokens + 1) P) (chart cky tokens)"
proof -
  have inv: "chart_inv (length tokens + 1) P (init_matrix (length tokens + 1))"
    by (simp add: chart_inv_def shaped_init all_cells_init init)
  show ?thesis unfolding chart_def Let_def
    by (rule safe_bindE [OF unaryFill_safe [OF inv st]]) (simp_all add: binaryScan_safe st)
qed

section \<open>The diagonal fill\<close>



section \<open>The binary scan\<close>















section \<open>The value of recognise\<close>

lemma recognise_verdict:
  "recognise cky tokens =
     bindE (chart cky tokens) (\<lambda>m. bindE (bindE (getCell m 0 (length tokens)) deref)
       (\<lambda>topcell. Inr (verdict cky topcell)))"
proof -
  have eq: "(\<lambda>topcell. if start_symbol (grammar cky) \<notin> set (labels topcell)
        then Inr (PyBool False)
        else Inr (PyInt (int (length (labels topcell))))) = (\<lambda>topcell. Inr (verdict cky topcell))"
    by (rule ext) (simp add: verdict_def)
  show ?thesis unfolding recognise_def Let_def eq by simp
qed

lemma recognise_returns:
  assumes "recognise cky tokens = Inr v"
  shows "\<exists>m topcell. chart cky tokens = Inr m \<and> getCell m 0 (length tokens) = Inr (Some topcell)
    \<and> v = verdict cky topcell"
  using assms unfolding recognise_verdict
  by (auto simp: bindE_Inr_iff deref_Inr_iff)

lemma recognise_values:
  assumes "recognise cky tokens = Inr v"
  shows "v = PyBool False \<or> (\<exists>k. v = PyInt k \<and> 1 \<le> k)"
proof -
  from recognise_returns [OF assms] obtain topcell where v: "v = verdict cky topcell"
    by blast
  show ?thesis
  proof (cases "start_symbol (grammar cky) \<in> set (labels topcell)")
    case True
    then have "labels topcell \<noteq> []" by auto
    then have "1 \<le> int (length (labels topcell))" by (cases "labels topcell") simp_all
    with True v show ?thesis by (simp add: verdict_def)
  next
    case False
    with v show ?thesis by (simp add: verdict_def)
  qed
qed

section \<open>Termination without unary cycles\<close>

lemma quiet_Inr: "quiet (Inr x)"
  by (simp add: quiet_def)

lemma quiet_bindE: "quiet r \<Longrightarrow> (\<And>x. quiet (f x)) \<Longrightarrow> quiet (bindE r f)"
  by (cases r) (simp_all add: quiet_def)

lemma quiet_for_error: "(\<And>x s. quiet (body x s)) \<Longrightarrow> quiet (for_error xs body s)"
proof (induction xs arbitrary: s)
  case Nil
  show ?case by (simp add: quiet_Inr)
next
  case (Cons x xs)
  show ?case unfolding for_error.simps
    by (rule quiet_bindE) (simp_all add: Cons)
qed

lemma quiet_case_option:
  "quiet a \<Longrightarrow> (\<And>x. quiet (f x)) \<Longrightarrow> quiet (case opt of None \<Rightarrow> a | Some x \<Rightarrow> f x)"
  by (cases opt) simp_all

lemma quiet_getitem: "quiet (getitem xs i)"
  by (simp add: quiet_def getitem_def)

lemma quiet_getCell: "quiet (getCell m r c)"
  unfolding getCell_def by (intro quiet_bindE quiet_getitem)

lemma quiet_deref: "quiet (deref co)"
  by (cases co) (simp_all add: quiet_def deref_def)

lemma quiet_label_and_close:
  assumes "\<And>s cell. unaryUpdate U s cell \<noteq> None"
  shows "quiet (label_and_close U s m r c co)"
proof (cases co)
  case None
  then show ?thesis by (simp add: label_and_close_def deref_def quiet_def)
next
  case (Some cell)
  with assms [of s "addLabel s cell"] show ?thesis
    by (auto simp: label_and_close_def deref_def quiet_def)
qed

lemma quiet_unaryFill:
  assumes "\<And>s cell. unaryUpdate (unary cky) s cell \<noteq> None"
  shows "quiet (unaryFill cky words n m)"
  unfolding unaryFill_def
  by (intro quiet_for_error quiet_bindE quiet_getCell quiet_getitem quiet_label_and_close assms)

lemma quiet_maybeBuild:
  assumes "\<And>s cell. unaryUpdate (unary cky) s cell \<noteq> None"
  shows "quiet (maybeBuild cky start mid end' m)"
  unfolding maybeBuild_def
  by (intro quiet_for_error quiet_bindE quiet_case_option quiet_Inr quiet_getCell quiet_deref
      quiet_label_and_close assms)

lemma quiet_binaryScan:
  assumes "\<And>s cell. unaryUpdate (unary cky) s cell \<noteq> None"
  shows "quiet (binaryScan cky n m)"
  unfolding binaryScan_def
  by (intro quiet_for_error quiet_maybeBuild assms)

lemma quiet_chart:
  assumes "\<And>s cell. unaryUpdate (unary cky) s cell \<noteq> None"
  shows "quiet (chart cky tokens)"
  unfolding chart_def Let_def
  by (intro quiet_bindE quiet_unaryFill quiet_binaryScan assms)

lemma wf_unaryUpdate_returns:
  assumes "wf (unary_rel U)"
  shows "unaryUpdate U s cell \<noteq> None"
proof -
  from assms have "s \<in> Wellfounded.acc (unary_rel U)" by (simp add: wf_iff_acc)
  from acc_unaryUpdate [OF this, of cell] show ?thesis by auto
qed

text \<open>
  Without a cycle in the unary rules the chart construction returns, and so does
  \<open>recognise\<close> on every non-empty token sequence.
\<close>

lemma wf_chart_returns:
  assumes "wf (unary_rel (unary cky))"
  shows "\<exists>m. chart cky tokens = Inr m \<and> shaped (length tokens + 1) m"
proof -
  have "safe (chart_inv (length tokens + 1) (\<lambda>_. True)) (chart cky tokens)"
    by (rule chart_safe) (simp_all add: stable_True)
  moreover have "quiet (chart cky tokens)"
    by (rule quiet_chart) (rule wf_unaryUpdate_returns [OF assms])
  ultimately show ?thesis by (auto simp: safe_def shaped_chart_inv quiet_def)
qed

lemma wf_recognise_returns:
  assumes "wf (unary_rel (unary cky))" and "tokens \<noteq> []"
  shows "\<exists>v. recognise cky tokens = Inr v"
proof -
  from wf_chart_returns [OF assms(1)] obtain m where m: "chart cky tokens = Inr m"
    and sh: "shaped (length tokens + 1) m" by blast
  from assms(2) have "0 < length tokens" "length tokens < length tokens + 1" by simp_all
  from getCell_shaped [OF sh this] obtain topcell where
    "getCell m 0 (length tokens) = Inr (Some topcell)" by blast
  with m show ?thesis by (simp add: recognise_verdict deref_def)
qed

section \<open>The recogniser on the example grammars\<close>

lemma CKY_init_dog: "CKY_init dog_grammar = Inr dog_cky"
  by (simp add: CKY_init_def buildIndices_def dog_grammar_def dog_cky_def dd_append_def)

lemma CKY_init_barks: "CKY_init barks_grammar = Inr barks_cky"
  by (simp add: CKY_init_def buildIndices_def barks_grammar_def barks_cky_def dd_append_def)

lemma CKY_init_cycle: "CKY_init cycle_grammar = Inr cycle_cky"
  by (simp add: CKY_init_def buildIndices_def cycle_grammar_def cycle_cky_def dd_append_def)

lemma cycle_X: "Nonterminal ''X'' \<in> unary_closure (unary cycle_cky) (Nonterminal ''X'')"
proof -
  have "(Nonterminal ''X'', Nonterminal ''Y'') \<in> unary_rel (unary cycle_cky)"
    "(Nonterminal ''Y'', Nonterminal ''X'') \<in> unary_rel (unary cycle_cky)"
    by (simp_all add: unary_rel_def cycle_cky_def)
  then show ?thesis unfolding unary_closure_def by (auto intro: trancl_into_trancl)
qed

lemma cycle_a: "Nonterminal ''X'' \<in> unary_closure (unary cycle_cky) (Terminal ''a'')"
proof -
  have "(Nonterminal ''X'', Terminal ''a'') \<in> unary_rel (unary cycle_cky)"
    by (simp add: unary_rel_def cycle_cky_def)
  then show ?thesis unfolding unary_closure_def by auto
qed

lemma unaryUpdate_cycle_X: "unaryUpdate (unary cycle_cky) (Nonterminal ''X'') cell = None"
  by (rule unaryUpdate_diverges_on_cycle [OF _ cycle_X]) simp

lemma unaryUpdate_cycle_a: "unaryUpdate (unary cycle_cky) (Terminal ''a'') cell = None"
  by (rule unaryUpdate_diverges_on_cycle [OF _ cycle_X]) (simp add: cycle_a)

lemma recognise_cycle: "recognise cycle_cky [''a''] = Inl RecursionError"
  by (simp add: recognise_def chart_def unaryFill_def init_matrix_def getCell_def getitem_def
      label_and_close_def deref_def unaryUpdate_cycle_a)

lemma chart_dog:
  "chart dog_cky [''dog''] = Inr [[None, Some \<lparr>row = 0, column = 1,
      labels = [Terminal ''dog'', Nonterminal ''N'', Nonterminal ''S'']\<rparr>]]"
  by code_simp

lemma recognise_dog: "recognise dog_cky [''dog''] = Inr (PyInt 3)"
  by code_simp

lemma recognise_barks: "recognise barks_cky [''the'', ''dog'', ''barks''] = Inr (PyInt 1)"
  by code_simp

lemma recognise_barks_not: "recognise barks_cky [''dog'', ''barks'', ''the''] = Inr (PyBool False)"
  by code_simp





section \<open>The claims\<close>

text \<open>
  C1. For a non-empty token sequence on which \<open>recognise\<close> terminates, the chart exists and
  has a cell at row 0 and column \<open>n - 1\<close> (\<open>n\<close> the token count plus one);
  \<open>recognise\<close> returns \<open>False\<close> exactly when the start symbol is not among the labels
  of that cell, and otherwise returns the number of distinct labels of that cell.
\<close>

theorem recognise_reports_start_symbol_and_label_count:
  assumes "tokens \<noteq> []" and "n = length tokens + 1"
    and "recognise cky tokens \<noteq> Inl RecursionError"
  shows "\<exists>m topcell. chart cky tokens = Inr m \<and> getCell m 0 (n - 1) = Inr (Some topcell)
    \<and> (recognise cky tokens = Inr (PyBool False)
          \<longleftrightarrow> start_symbol (grammar cky) \<notin> set (labels topcell))
    \<and> (start_symbol (grammar cky) \<in> set (labels topcell)
          \<longrightarrow> recognise cky tokens = Inr (PyInt (int (card (set (labels topcell))))))"
proof -
  have "safe (chart_inv n (\<lambda>cell. distinct (labels cell))) (chart cky tokens)"
    unfolding assms(2) by (rule chart_safe) (simp_all add: Cell_init_def stable_distinct)
  moreover have "chart cky tokens \<noteq> Inl RecursionError"
    using assms(3) by (auto simp: recognise_def)
  ultimately obtain m where m: "chart cky tokens = Inr m"
    and sh: "shaped n m" and cells: "all_cells (\<lambda>cell. distinct (labels cell)) m"
    by (auto simp: safe_def chart_inv_def)
  from assms(1,2) have "0 < n - 1" "n - 1 < n" by simp_all
  from getCell_shaped [OF sh this] obtain topcell where
    topcell: "getCell m 0 (n - 1) = Inr (Some topcell)" by blast
  from all_cells_getCell [OF cells topcell] have "distinct (labels topcell)" .
  then have card: "card (set (labels topcell)) = length (labels topcell)"
    by (rule distinct_card)
  from topcell assms(2) have "recognise cky tokens = Inr (verdict cky topcell)"
    by (simp add: recognise_verdict m deref_def)
  with card have "(recognise cky tokens = Inr (PyBool False)
          \<longleftrightarrow> start_symbol (grammar cky) \<notin> set (labels topcell))
    \<and> (start_symbol (grammar cky) \<in> set (labels topcell)
          \<longrightarrow> recognise cky tokens = Inr (PyInt (int (card (set (labels topcell))))))"
    by (simp add: verdict_def)
  with m topcell show ?thesis by blast
qed

theorem recognise_reports_start_symbol_and_label_count_witness:
  "[''the'', ''dog'', ''barks''] \<noteq> []
   \<and> recognise barks_cky [''the'', ''dog'', ''barks''] \<noteq> Inl RecursionError
   \<and> (\<exists>m topcell. chart barks_cky [''the'', ''dog'', ''barks''] = Inr m
        \<and> getCell m 0 3 = Inr (Some topcell)
        \<and> start_symbol (grammar barks_cky) \<in> set (labels topcell)
        \<and> card (set (labels topcell)) = 1
        \<and> recognise barks_cky [''the'', ''dog'', ''barks''] = Inr (PyInt 1))
   \<and> recognise barks_cky [''dog'', ''barks'', ''the''] \<noteq> Inl RecursionError
   \<and> (\<exists>m topcell. chart barks_cky [''dog'', ''barks'', ''the''] = Inr m
        \<and> getCell m 0 3 = Inr (Some topcell)
        \<and> start_symbol (grammar barks_cky) \<notin> set (labels topcell)
        \<and> recognise barks_cky [''dog'', ''barks'', ''the''] = Inr (PyBool False))"
proof -
  have yes: "recognise barks_cky [''the'', ''dog'', ''barks''] \<noteq> Inl RecursionError"
    by (simp add: recognise_barks)
  have no: "recognise barks_cky [''dog'', ''barks'', ''the''] \<noteq> Inl RecursionError"
    by (simp add: recognise_barks_not)
  from recognise_reports_start_symbol_and_label_count
    [of "[''the'', ''dog'', ''barks'']" 4 barks_cky] yes
  have 1: "\<exists>m topcell. chart barks_cky [''the'', ''dog'', ''barks''] = Inr m
        \<and> getCell m 0 3 = Inr (Some topcell)
        \<and> start_symbol (grammar barks_cky) \<in> set (labels topcell)
        \<and> card (set (labels topcell)) = 1
        \<and> recognise barks_cky [''the'', ''dog'', ''barks''] = Inr (PyInt 1)"
    by (auto simp: recognise_barks)
  from recognise_reports_start_symbol_and_label_count
    [of "[''dog'', ''barks'', ''the'']" 4 barks_cky] no
  have 2: "\<exists>m topcell. chart barks_cky [''dog'', ''barks'', ''the''] = Inr m
        \<and> getCell m 0 3 = Inr (Some topcell)
        \<and> start_symbol (grammar barks_cky) \<notin> set (labels topcell)
        \<and> recognise barks_cky [''dog'', ''barks'', ''the''] = Inr (PyBool False)"
    by (auto simp: recognise_barks_not)
  from yes no 1 2 show ?thesis by simp
qed

text \<open>
  C2. On the grammar with the unary rules X \<rightarrow> Y and Y \<rightarrow> X the closure does not
  terminate: \<open>unaryUpdate\<close> recurses on a parent whether or not the parent was already in
  the cell, so the call for X never returns, and \<open>recognise\<close> on the token "a" (with
  X \<rightarrow> "a") ends in \<open>RecursionError\<close>.
\<close>

theorem unaryUpdate_unary_cycle_diverges:
  "CKY_init cycle_grammar = Inr cycle_cky
   \<and> unaryUpdate (unary cycle_cky) (Nonterminal ''X'') (addLabel (Nonterminal ''X'') (Cell_init 0 1))
       = None
   \<and> recognise cycle_cky [''a''] = Inl RecursionError"
  by (simp add: CKY_init_cycle unaryUpdate_cycle_X recognise_cycle)

text \<open>
  C3. On an empty token sequence \<open>recognise\<close> does not return: with \<open>n = 1\<close> the matrix
  has no row, both loops are empty, and the final read of \<open>self.matrix[0]\<close> raises
  \<open>IndexError\<close>, for every recogniser.
\<close>

theorem recognise_empty_raises: "recognise cky [] = Inl IndexError"
proof -
  have "chart cky [] = Inr []"
    by (simp add: chart_def unaryFill_def binaryScan_def init_matrix_def)
  moreover have "getCell [] 0 0 = Inl IndexError"
    by (simp add: getCell_def getitem_def)
  ultimately show ?thesis by (simp add: recognise_def)
qed





text \<open>
  C6. When the chart construction terminates, every cell of the chart is closed under the
  unary rules: every parent that the unary index lists for a label of the cell is in the
  cell, and applying the closure again from any label of the cell returns the cell
  unchanged.
\<close>

theorem chart_cells_unary_closed:
  assumes "chart cky tokens = Inr m" and "getCell m r c = Inr (Some cell)"
  shows "(\<forall>l \<in> set (labels cell). \<forall>parents. unary cky l = Some parents
            \<longrightarrow> set parents \<subseteq> set (labels cell))
       \<and> (\<forall>l \<in> set (labels cell). unaryUpdate (unary cky) l cell = Some cell)"
proof -
  have "safe (chart_inv (length tokens + 1) (closed_cell (unary cky))) (chart cky tokens)"
    by (rule chart_safe) (simp_all add: closed_cell_init stable_closed_cell)
  with assms(1) have "all_cells (closed_cell (unary cky)) m"
    by (simp add: chart_inv_def)
  from all_cells_getCell [OF this assms(2)] have closed: "closed_cell (unary cky) cell" .
  have "set parents \<subseteq> set (labels cell)"
    if l: "l \<in> set (labels cell)" and ps: "unary cky l = Some parents" for l parents
  proof -
    from ps have "set parents \<subseteq> unary_closure (unary cky) l"
      by (auto simp: unary_closure_def unary_rel_def)
    with closed_cell_closure [OF closed l] show ?thesis by simp
  qed
  with closed show ?thesis by (simp add: closed_cell_def)
qed

theorem chart_cells_unary_closed_witness:
  "chart dog_cky [''dog''] = Inr [[None, Some \<lparr>row = 0, column = 1,
      labels = [Terminal ''dog'', Nonterminal ''N'', Nonterminal ''S'']\<rparr>]]
   \<and> getCell [[None, Some \<lparr>row = 0, column = 1,
      labels = [Terminal ''dog'', Nonterminal ''N'', Nonterminal ''S'']\<rparr>]] 0 1
       = Inr (Some \<lparr>row = 0, column = 1,
           labels = [Terminal ''dog'', Nonterminal ''N'', Nonterminal ''S'']\<rparr>)
   \<and> unary dog_cky (Terminal ''dog'') = Some [Nonterminal ''N'']
   \<and> set [Nonterminal ''N''] \<subseteq> set [Terminal ''dog'', Nonterminal ''N'', Nonterminal ''S'']
   \<and> unaryUpdate (unary dog_cky) (Terminal ''dog'') \<lparr>row = 0, column = 1,
        labels = [Terminal ''dog'', Nonterminal ''N'', Nonterminal ''S'']\<rparr>
       = Some \<lparr>row = 0, column = 1,
           labels = [Terminal ''dog'', Nonterminal ''N'', Nonterminal ''S'']\<rparr>"
proof -
  have get: "getCell [[None, Some \<lparr>row = 0, column = 1,
      labels = [Terminal ''dog'', Nonterminal ''N'', Nonterminal ''S'']\<rparr>]] 0 1
       = Inr (Some \<lparr>row = 0, column = 1,
           labels = [Terminal ''dog'', Nonterminal ''N'', Nonterminal ''S'']\<rparr>)"
    by (simp add: getCell_def getitem_def)
  have U: "unary dog_cky (Terminal ''dog'') = Some [Nonterminal ''N'']"
    by (simp add: dog_cky_def)
  from chart_cells_unary_closed [OF chart_dog get] U chart_dog get
  show ?thesis by simp
qed

text \<open>
  C7. Building the recogniser fails exactly when some production has a right-hand side of
  length 0 or of length greater than 2; the failure is the assertion of \<open>buildIndices\<close>,
  raised while the recogniser is constructed, so that no recogniser object exists on which
  \<open>recognise\<close> could be called. When every right-hand side has length 1 or 2 the
  construction succeeds and yields the recogniser holding the grammar and its two indices.
\<close>

theorem construction_fails_iff_bad_arity:
  "((\<exists>e. CKY_init g = Inl e) \<longleftrightarrow>
      (\<exists>p \<in> set (productions g). length (rhs p) = 0 \<or> length (rhs p) > 2))
   \<and> (\<forall>e. CKY_init g = Inl e \<longrightarrow> e = AssertionError)
   \<and> ((\<forall>p \<in> set (productions g). length (rhs p) = 1 \<or> length (rhs p) = 2) \<longrightarrow>
        (\<exists>c. CKY_init g = Inr c \<and> grammar c = g
           \<and> buildIndices (productions g) = Inr (unary c, binary c)))"
proof (intro conjI allI impI)
  have "(\<exists>e. CKY_init g = Inl e) \<longleftrightarrow> (\<exists>e. buildIndices (productions g) = Inl e)"
    by (auto simp: CKY_init_def split: sum.splits)
  then show "(\<exists>e. CKY_init g = Inl e) \<longleftrightarrow>
      (\<exists>p \<in> set (productions g). length (rhs p) = 0 \<or> length (rhs p) > 2)"
    by (simp add: buildIndices_def buildIndices_loop_fails)
next
  fix e
  assume "CKY_init g = Inl e"
  then have "buildIndices (productions g) = Inl e"
    by (auto simp: CKY_init_def split: sum.splits)
  then show "e = AssertionError"
    unfolding buildIndices_def by (rule buildIndices_loop_error)
next
  assume "\<forall>p \<in> set (productions g). length (rhs p) = 1 \<or> length (rhs p) = 2"
  from buildIndices_result [OF this]
  show "\<exists>c. CKY_init g = Inr c \<and> grammar c = g
      \<and> buildIndices (productions g) = Inr (unary c, binary c)"
    by (simp add: CKY_init_def)
qed

theorem construction_fails_iff_bad_arity_witness:
  "list_all (\<lambda>p. length (rhs p) = 1 \<or> length (rhs p) = 2) (productions barks_grammar)
   \<and> (\<exists>c. CKY_init barks_grammar = Inr c)
   \<and> (\<exists>p \<in> set (productions empty_rhs_grammar). length (rhs p) = 0 \<or> length (rhs p) > 2)
   \<and> CKY_init empty_rhs_grammar = Inl AssertionError
   \<and> (\<exists>p \<in> set (productions ternary_grammar). length (rhs p) = 0 \<or> length (rhs p) > 2)
   \<and> CKY_init ternary_grammar = Inl AssertionError"
proof -
  have good: "\<forall>p \<in> set (productions barks_grammar). length (rhs p) = 1 \<or> length (rhs p) = 2"
    by (simp add: barks_grammar_def)
  have bad0: "\<exists>p \<in> set (productions empty_rhs_grammar). length (rhs p) = 0 \<or> length (rhs p) > 2"
    by (simp add: empty_rhs_grammar_def)
  have bad3: "\<exists>p \<in> set (productions ternary_grammar). length (rhs p) = 0 \<or> length (rhs p) > 2"
    by (simp add: ternary_grammar_def)
  from good construction_fails_iff_bad_arity [of barks_grammar]
  have 1: "\<exists>c. CKY_init barks_grammar = Inr c" by blast
  from bad0 construction_fails_iff_bad_arity [of empty_rhs_grammar]
  have 2: "CKY_init empty_rhs_grammar = Inl AssertionError" by blast
  from bad3 construction_fails_iff_bad_arity [of ternary_grammar]
  have 3: "CKY_init ternary_grammar = Inl AssertionError" by blast
  from good bad0 bad3 1 2 3 show ?thesis by (simp add: list_all_iff)
qed

text \<open>
  C8. Adding a label that the cell already holds leaves the cell unchanged, so adding a
  label twice is the same as adding it once. A cell filled by any sequence of additions
  holds each added symbol once, at the place of its first addition
  (\<open>rev (remdups (rev xs))\<close> keeps the first occurrence of each element of \<open>xs\<close>);
  an addition never reorders or removes the labels already there.
\<close>

theorem addLabel_idempotent_first_insertion_order:
  "(label \<in> set (labels cell) \<longrightarrow> addLabel label cell = cell)
   \<and> addLabel label (addLabel label cell) = addLabel label cell
   \<and> labels (fold addLabel xs (Cell_init r c)) = rev (remdups (rev xs))
   \<and> distinct (labels (fold addLabel xs (Cell_init r c)))
   \<and> (distinct (labels cell) \<longrightarrow> distinct (labels (addLabel label cell)))
   \<and> (\<exists>new. labels (addLabel label cell) = labels cell @ new)"
proof (intro conjI impI)
  show "addLabel label (addLabel label cell) = addLabel label cell"
    by (simp add: addLabel_def)
  show "distinct (labels (fold addLabel xs (Cell_init r c)))"
    by (simp add: labels_fold_addLabel)
  show "\<exists>new. labels (addLabel label cell) = labels cell @ new"
    by (simp add: addLabel_def)
qed (simp_all add: addLabel_present distinct_addLabel labels_fold_addLabel)

theorem addLabel_idempotent_first_insertion_order_witness:
  "Nonterminal ''S'' \<in> set (labels \<lparr>row = 0, column = 1, labels = [Terminal ''dog'', Nonterminal ''S'']\<rparr>)
   \<and> addLabel (Nonterminal ''S'') \<lparr>row = 0, column = 1, labels = [Terminal ''dog'', Nonterminal ''S'']\<rparr>
       = \<lparr>row = 0, column = 1, labels = [Terminal ''dog'', Nonterminal ''S'']\<rparr>
   \<and> labels (fold addLabel [Terminal ''dog'', Nonterminal ''N'', Terminal ''dog'', Nonterminal ''S'',
        Nonterminal ''N''] (Cell_init 0 1)) = [Terminal ''dog'', Nonterminal ''N'', Nonterminal ''S'']
   \<and> distinct (labels \<lparr>row = 0, column = 1, labels = [Terminal ''dog'', Nonterminal ''S'']\<rparr>)
   \<and> distinct (labels (addLabel (Nonterminal ''N'')
        \<lparr>row = 0, column = 1, labels = [Terminal ''dog'', Nonterminal ''S'']\<rparr>))"
  using addLabel_idempotent_first_insertion_order
    [of "Nonterminal ''S''" "\<lparr>row = 0, column = 1, labels = [Terminal ''dog'', Nonterminal ''S'']\<rparr>"
      "[Terminal ''dog'', Nonterminal ''N'', Terminal ''dog'', Nonterminal ''S'', Nonterminal ''N'']" 0 1]
    addLabel_idempotent_first_insertion_order
    [of "Nonterminal ''N''" "\<lparr>row = 0, column = 1, labels = [Terminal ''dog'', Nonterminal ''S'']\<rparr>"
      "[]" 0 1]
  by simp

text \<open>
  C9. When every right-hand side has length 1 or 2, \<open>buildIndices\<close> succeeds; the unary
  index maps a child symbol to the left-hand sides of the productions whose right-hand side
  is that child alone, and the binary index maps an ordered pair of children to the
  left-hand sides of the productions with that right-hand side, both in the order of the
  production list and with one entry per production (no deduplication). A key without a
  production is absent.
\<close>

theorem buildIndices_parents_in_production_order:
  assumes "\<forall>p \<in> set ps. length (rhs p) = 1 \<or> length (rhs p) = 2"
  shows "\<exists>U B. buildIndices ps = Inr (U, B)
    \<and> (\<forall>c. U c = (if \<exists>p \<in> set ps. rhs p = [c]
                   then Some (map lhs (filter (\<lambda>p. rhs p = [c]) ps)) else None))
    \<and> (\<forall>a b. B [a, b] = (if \<exists>p \<in> set ps. rhs p = [a, b]
                   then Some (map lhs (filter (\<lambda>p. rhs p = [a, b]) ps)) else None))
    \<and> (\<forall>k. length k \<noteq> 2 \<longrightarrow> B k = None)"
  unfolding buildIndices_result [OF assms]
  by (auto simp: unary_parents_def binary_parents_def filter_empty_conv)

theorem buildIndices_parents_in_production_order_witness:
  "list_all (\<lambda>p. length (rhs p) = 1 \<or> length (rhs p) = 2) twice_productions
   \<and> (\<exists>U B. buildIndices twice_productions = Inr (U, B)
        \<and> U (Terminal ''dog'') = Some [Nonterminal ''N'', Nonterminal ''N'']
        \<and> U (Nonterminal ''N'') = None
        \<and> B [Nonterminal ''N'', Nonterminal ''N''] = Some [Nonterminal ''S''])"
proof -
  have good: "\<forall>p \<in> set twice_productions. length (rhs p) = 1 \<or> length (rhs p) = 2"
    by (simp add: twice_productions_def)
  from buildIndices_parents_in_production_order [OF good]
  obtain U B where ub: "buildIndices twice_productions = Inr (U, B)"
    and U: "\<And>c. U c = (if \<exists>p \<in> set twice_productions. rhs p = [c]
                   then Some (map lhs (filter (\<lambda>p. rhs p = [c]) twice_productions)) else None)"
    and B: "\<And>a b. B [a, b] = (if \<exists>p \<in> set twice_productions. rhs p = [a, b]
                   then Some (map lhs (filter (\<lambda>p. rhs p = [a, b]) twice_productions)) else None)"
    by blast
  have "U (Terminal ''dog'') = Some [Nonterminal ''N'', Nonterminal ''N'']"
    unfolding U by (simp add: twice_productions_def)
  moreover have "U (Nonterminal ''N'') = None"
    unfolding U by (simp add: twice_productions_def)
  moreover have "B [Nonterminal ''N'', Nonterminal ''N''] = Some [Nonterminal ''S'']"
    unfolding B by (simp add: twice_productions_def)
  ultimately show ?thesis using good ub by (simp add: list_all_iff)
qed

text \<open>
  C10. \<open>recognise\<close> never returns the integer 0: a returned value is \<open>False\<close> or an
  integer that is at least 1, and an integer is returned only when the start symbol is in
  the full-span cell, whose label count it is.
\<close>

theorem recognise_never_returns_zero:
  "recognise cky tokens \<noteq> Inr (PyInt 0)
   \<and> (\<forall>v. recognise cky tokens = Inr v \<longrightarrow> v = PyBool False \<or> (\<exists>k. v = PyInt k \<and> 1 \<le> k))
   \<and> (\<forall>k. recognise cky tokens = Inr (PyInt k) \<longrightarrow>
        (\<exists>m topcell. chart cky tokens = Inr m
           \<and> getCell m 0 (length tokens) = Inr (Some topcell)
           \<and> start_symbol (grammar cky) \<in> set (labels topcell)
           \<and> k = int (length (labels topcell))))"
proof (intro conjI allI impI)
  show "recognise cky tokens \<noteq> Inr (PyInt 0)"
    using recognise_values [of cky tokens "PyInt 0"] by auto
next
  fix v assume "recognise cky tokens = Inr v"
  then show "v = PyBool False \<or> (\<exists>k. v = PyInt k \<and> 1 \<le> k)" by (rule recognise_values)
next
  fix k assume "recognise cky tokens = Inr (PyInt k)"
  from recognise_returns [OF this] obtain m topcell where
    "chart cky tokens = Inr m" "getCell m 0 (length tokens) = Inr (Some topcell)"
    "PyInt k = verdict cky topcell" by blast
  then show "\<exists>m topcell. chart cky tokens = Inr m
           \<and> getCell m 0 (length tokens) = Inr (Some topcell)
           \<and> start_symbol (grammar cky) \<in> set (labels topcell)
           \<and> k = int (length (labels topcell))"
    by (auto simp: verdict_def split: if_splits)
qed

theorem recognise_never_returns_zero_witness:
  "recognise dog_cky [''dog''] = Inr (PyInt 3)
   \<and> (\<exists>m topcell. chart dog_cky [''dog''] = Inr m
           \<and> getCell m 0 (length [''dog'']) = Inr (Some topcell)
           \<and> start_symbol (grammar dog_cky) \<in> set (labels topcell)
           \<and> 3 = int (length (labels topcell)))"
  using recognise_never_returns_zero [of dog_cky "[''dog'']"] recognise_dog
  by blast

end
